theory Spec2Isabelle
  imports Main "HOL-Library.Word" "HOL-Library.Sublist"
begin

section \<open>JavaScript strings\<close>

text \<open>
  A JavaScript string is a sequence of 16-bit UTF-16 code units; \<open>length\<close>,
  \<open>indexOf\<close>, \<open>split\<close> and a regular expression without the \<open>u\<close> flag
  all work on code units. \<open>js\<close> turns an ASCII literal of the source text into
  such a sequence.
\<close>

type_synonym jschar = "16 word"
type_synonym jsstring = "jschar list"

definition js :: "string \<Rightarrow> jsstring" where
  "js s = map of_char s"

abbreviation PERCENT :: jschar where "PERCENT \<equiv> 0x25"
abbreviation DOT :: jschar where "DOT \<equiv> 0x2E"
abbreviation SLASH :: jschar where "SLASH \<equiv> 0x2F"
abbreviation QMARK :: jschar where "QMARK \<equiv> 0x3F"
abbreviation BACKSLASH :: jschar where "BACKSLASH \<equiv> 0x5C"

text \<open>\<open>s.startsWith(p)\<close> and \<open>s.endsWith(p)\<close>, by comparing the slice of \<open>s\<close>.\<close>

definition startsWith :: "jsstring \<Rightarrow> jsstring \<Rightarrow> bool" where
  "startsWith s p = (length p \<le> length s \<and> take (length p) s = p)"

definition endsWith :: "jsstring \<Rightarrow> jsstring \<Rightarrow> bool" where
  "endsWith s p = (length p \<le> length s \<and> drop (length s - length p) s = p)"

text \<open>\<open>s.indexOf(c)\<close> for a one-unit search string: \<open>None\<close> stands for \<open>-1\<close>.\<close>

fun indexOf :: "jschar \<Rightarrow> jsstring \<Rightarrow> nat option" where
  "indexOf c [] = None"
| "indexOf c (x # xs) =
     (if x = c then Some 0 else map_option Suc (indexOf c xs))"

text \<open>\<open>s.substring(0, i)\<close> for \<open>0 \<le> i\<close> (an end past the length is clamped).\<close>

definition substring0 :: "nat \<Rightarrow> jsstring \<Rightarrow> jsstring" where
  "substring0 i s = take (min i (length s)) s"

text \<open>
  \<open>s.split(sep)\<close> for a one-unit separator: the pieces between the separators,
  empty pieces kept; the empty string gives one empty piece.
\<close>

fun split :: "jschar \<Rightarrow> jsstring \<Rightarrow> jsstring list" where
  "split sep [] = [[]]"
| "split sep (c # cs) =
     (if c = sep then [] # split sep cs
      else (case split sep cs of
              [] \<Rightarrow> [[c]]
            | seg # segs \<Rightarrow> (c # seg) # segs))"

text \<open>
  \<open>a[a.length - 1]\<close>: reading index \<open>-1\<close> of an empty array gives
  \<open>undefined\<close> (here \<open>None\<close>).
\<close>

definition lastElement :: "'a list \<Rightarrow> 'a option" where
  "lastElement a = (if length a = 0 then None else Some (a ! (length a - 1)))"

section \<open>decodeURIComponent\<close>

text \<open>
  The built-in of the language, after the abstract operation Decode of ECMA-262 with an
  empty set of preserved escapes: a code unit other than \<open>%\<close> is copied; \<open>%XX\<close>
  with a byte below 0x80 gives that code unit; a byte with \<open>n\<close> leading one bits,
  \<open>2 \<le> n \<le> 4\<close>, starts a group of \<open>n\<close> escapes that must hold one
  well-formed UTF-8 sequence, whose code point is appended in UTF-16. Everything
  else throws URIError, which is \<open>None\<close> here.
\<close>

definition hexDigit :: "jschar \<Rightarrow> nat option" where
  "hexDigit c =
     (if 0x30 \<le> c \<and> c \<le> 0x39 then Some (unat c - 0x30)
      else if 0x41 \<le> c \<and> c \<le> 0x46 then Some (unat c - 0x41 + 10)
      else if 0x61 \<le> c \<and> c \<le> 0x66 then Some (unat c - 0x61 + 10)
      else None)"

fun parseHexOctet :: "jsstring \<Rightarrow> nat option" where
  "parseHexOctet (a # b # rest) =
     (case hexDigit a of
        None \<Rightarrow> None
      | Some h \<Rightarrow> (case hexDigit b of None \<Rightarrow> None | Some l \<Rightarrow> Some (16 * h + l)))"
| "parseHexOctet rest = None"

definition leadingOnes :: "nat \<Rightarrow> nat" where
  "leadingOnes b =
     (if b < 0x80 then 0 else if b < 0xC0 then 1 else if b < 0xE0 then 2
      else if b < 0xF0 then 3 else if b < 0xF8 then 4 else if b < 0xFC then 5
      else if b < 0xFE then 6 else if b < 0xFF then 7 else 8)"

text \<open>The \<open>j\<close> continuation escapes \<open>%XX\<close> that follow the first byte of a group.\<close>

fun continuationBytes :: "nat \<Rightarrow> jsstring \<Rightarrow> (nat list \<times> jsstring) option" where
  "continuationBytes 0 s = Some ([], s)"
| "continuationBytes (Suc j) [] = None"
| "continuationBytes (Suc j) (c # cs) =
     (if c \<noteq> PERCENT then None
      else (case parseHexOctet cs of
              None \<Rightarrow> None
            | Some b \<Rightarrow>
                (case continuationBytes j (drop 2 cs) of
                   None \<Rightarrow> None
                 | Some (bs, s') \<Rightarrow> Some (b # bs, s'))))"

definition isCont :: "nat \<Rightarrow> bool" where
  "isCont b = (0x80 \<le> b \<and> b \<le> 0xBF)"

text \<open>
  The code point of a well-formed UTF-8 sequence of two to four bytes (the Unicode
  standard's table of well-formed byte sequences: no overlong form, no surrogate,
  nothing above 0x10FFFF).
\<close>

fun utf8CodePoint :: "nat list \<Rightarrow> nat option" where
  "utf8CodePoint [b0, b1] =
     (if 0xC2 \<le> b0 \<and> b0 \<le> 0xDF \<and> isCont b1
      then Some ((b0 - 0xC0) * 64 + (b1 - 0x80)) else None)"
| "utf8CodePoint [b0, b1, b2] =
     (if 0xE0 \<le> b0 \<and> b0 \<le> 0xEF \<and> isCont b1 \<and> isCont b2
         \<and> (if b0 = 0xE0 then 0xA0 \<le> b1 else True)
         \<and> (if b0 = 0xED then b1 \<le> 0x9F else True)
      then Some ((b0 - 0xE0) * 4096 + (b1 - 0x80) * 64 + (b2 - 0x80)) else None)"
| "utf8CodePoint [b0, b1, b2, b3] =
     (if 0xF0 \<le> b0 \<and> b0 \<le> 0xF4 \<and> isCont b1 \<and> isCont b2 \<and> isCont b3
         \<and> (if b0 = 0xF0 then 0x90 \<le> b1 else True)
         \<and> (if b0 = 0xF4 then b1 \<le> 0x8F else True)
      then Some ((b0 - 0xF0) * 262144 + (b1 - 0x80) * 4096 + (b2 - 0x80) * 64 + (b3 - 0x80))
      else None)"
| "utf8CodePoint bs = None"

definition utf16Encode :: "nat \<Rightarrow> jsstring" where
  "utf16Encode v =
     (if v < 0x10000 then [of_nat v]
      else [of_nat (0xD800 + (v - 0x10000) div 1024),
            of_nat (0xDC00 + (v - 0x10000) mod 1024)])"

text \<open>
  One round of the loop of Decode: the code units it appends and the input that is
  left, or \<open>None\<close> for URIError.
\<close>

fun decodeStep :: "jsstring \<Rightarrow> (jsstring \<times> jsstring) option" where
  "decodeStep [] = None"
| "decodeStep (c # cs) =
     (if c \<noteq> PERCENT then Some ([c], cs)
      else (case parseHexOctet cs of
              None \<Rightarrow> None
            | Some b \<Rightarrow>
                (let n = leadingOnes b in
                 if n = 0 then Some ([of_nat b], drop 2 cs)
                 else if n = 1 \<or> n > 4 then None
                 else (case continuationBytes (n - 1) (drop 2 cs) of
                         None \<Rightarrow> None
                       | Some (bs, rest) \<Rightarrow>
                           (case utf8CodePoint (b # bs) of
                              None \<Rightarrow> None
                            | Some v \<Rightarrow> Some (utf16Encode v, rest))))))"

lemma continuationBytes_length:
  "continuationBytes j s = Some (bs, s') \<Longrightarrow> length s' \<le> length s"
proof (induction j s arbitrary: bs s' rule: continuationBytes.induct)
  case (3 j c cs)
  then show ?case
    by (fastforce split: if_splits option.splits prod.splits)
qed simp_all

lemma decodeStep_shorter:
  "decodeStep s = Some (out, s') \<Longrightarrow> length s' < length s"
  by (cases s)
    (auto simp: Let_def split: if_splits option.splits prod.splits
      dest: continuationBytes_length)

function decodeURIComponent :: "jsstring \<Rightarrow> jsstring option" where
  "decodeURIComponent s =
     (if s = [] then Some []
      else (case decodeStep s of
              None \<Rightarrow> None
            | Some (out, s') \<Rightarrow> map_option ((@) out) (decodeURIComponent s')))"
  by pat_completeness auto
termination
  by (relation "measure length") (auto dest: decodeStep_shorter)

declare decodeURIComponent.simps [simp del]

section \<open>Regular expressions\<close>

text \<open>
  The three regular expressions of the source use only literal code units, a class
  repeated one or more times (greedy \<open>+\<close> or lazy \<open>+?\<close>), one capture group,
  the end anchor \<open>$\<close> and the alternation \<open>(?:\?|$)\<close>. A pattern is a list of
  such items, matched by backtracking in the order of the language: a greedy
  repetition tries the longer match first, a lazy one the shorter, an alternation
  its left branch first.
\<close>

datatype rx =
    Lit jschar
  | PlusG "jschar \<Rightarrow> bool"
  | PlusL "jschar \<Rightarrow> bool"
  | GOpen
  | GClose
  | QOrEnd
  | Eos

text \<open>
  \<open>rxMatch items s g cap\<close> matches \<open>items\<close> at the front of \<open>s\<close>; \<open>g\<close> is
  the input where the group opened and \<open>cap\<close> the text captured so far. The result
  is the capture of group 1 of the first successful path, \<open>None\<close> when every path
  fails.
\<close>

fun rxMatch :: "rx list \<Rightarrow> jsstring \<Rightarrow> jsstring \<Rightarrow> jsstring \<Rightarrow> jsstring option" where
  "rxMatch [] s g cap = Some cap"
| "rxMatch (Lit a # items) s g cap =
     (case s of
        [] \<Rightarrow> None
      | x # xs \<Rightarrow> if x = a then rxMatch items xs g cap else None)"
| "rxMatch (PlusG cls # items) s g cap =
     (case s of
        [] \<Rightarrow> None
      | x # xs \<Rightarrow>
          if cls x
          then (case rxMatch (PlusG cls # items) xs g cap of
                  Some r \<Rightarrow> Some r
                | None \<Rightarrow> rxMatch items xs g cap)
          else None)"
| "rxMatch (PlusL cls # items) s g cap =
     (case s of
        [] \<Rightarrow> None
      | x # xs \<Rightarrow>
          if cls x
          then (case rxMatch items xs g cap of
                  Some r \<Rightarrow> Some r
                | None \<Rightarrow> rxMatch (PlusL cls # items) xs g cap)
          else None)"
| "rxMatch (GOpen # items) s g cap = rxMatch items s s cap"
| "rxMatch (GClose # items) s g cap =
     rxMatch items s g (take (length g - length s) g)"
| "rxMatch (QOrEnd # items) s g cap =
     (case s of
        [] \<Rightarrow> rxMatch items [] g cap
      | x # xs \<Rightarrow> if x = QMARK then rxMatch items xs g cap else None)"
| "rxMatch (Eos # items) s g cap =
     (case s of [] \<Rightarrow> rxMatch items [] g cap | x # xs \<Rightarrow> None)"

text \<open>
  \<open>s.match(re)\<close> and \<open>re.test(s)\<close> without the global or sticky flag: the
  match is tried at each start index from 0 up to the length, and the leftmost
  success wins. The result is the capture of group 1.
\<close>

fun rxExec :: "rx list \<Rightarrow> jsstring \<Rightarrow> jsstring option" where
  "rxExec items [] = rxMatch items [] [] []"
| "rxExec items (x # xs) =
     (case rxMatch items (x # xs) [] [] of
        Some r \<Rightarrow> Some r
      | None \<Rightarrow> rxExec items xs)"

definition rxTest :: "rx list \<Rightarrow> jsstring \<Rightarrow> bool" where
  "rxTest items s = (rxExec items s \<noteq> None)"

text \<open>The character classes: \<open>\w\<close>, \<open>.\<close> (no line terminator), \<open>[^/]\<close>, \<open>[^/\\?]\<close>.\<close>

definition isWordChar :: "jschar \<Rightarrow> bool" where
  "isWordChar c =
     ((0x30 \<le> c \<and> c \<le> 0x39) \<or> (0x41 \<le> c \<and> c \<le> 0x5A) \<or> c = 0x5F
      \<or> (0x61 \<le> c \<and> c \<le> 0x7A))"

definition isLineTerminator :: "jschar \<Rightarrow> bool" where
  "isLineTerminator c = (c = 0x0A \<or> c = 0x0D \<or> c = 0x2028 \<or> c = 0x2029)"

definition anyChar :: "jschar \<Rightarrow> bool" where
  "anyChar c = (\<not> isLineTerminator c)"

definition notSlash :: "jschar \<Rightarrow> bool" where
  "notSlash c = (c \<noteq> SLASH)"

definition nameChar :: "jschar \<Rightarrow> bool" where
  "nameChar c = (c \<noteq> SLASH \<and> c \<noteq> BACKSLASH \<and> c \<noteq> QMARK)"

text \<open>\<^verbatim>\<open>/\.\w+$/\<close>\<close>

definition rxExtension :: "rx list" where
  "rxExtension = [Lit DOT, PlusG isWordChar, Eos]"

text \<open>\<^verbatim>\<open>/([^/\\?]+\.\w+)(?:\?|$)/\<close>\<close>

definition rxTrailingName :: "rx list" where
  "rxTrailingName = [GOpen, PlusG nameChar, Lit DOT, PlusG isWordChar, GClose, QOrEnd]"

text \<open>\<^verbatim>\<open>/app:\/\/[^/]+\/(.+?)(?:\?|$)/\<close>\<close>

definition rxAppUrl :: "rx list" where
  "rxAppUrl =
     [Lit 0x61, Lit 0x70, Lit 0x70, Lit 0x3A, Lit SLASH, Lit SLASH, PlusG notSlash,
      Lit SLASH, GOpen, PlusL anyChar, GClose, QOrEnd]"

section \<open>The vault and the embed code\<close>

text \<open>
  \<open>TFile\<close> is the host's file object; the source reads its \<open>path\<close> (relative to
  the vault) and its \<open>name\<close>. \<open>app.vault.getFiles()\<close> is the list \<open>allFiles\<close>.
\<close>

record TFile =
  path :: jsstring
  name :: jsstring

text \<open>\<open>extractFilenameFromSrc\<close>: the \<open>catch\<close> branch runs when decoding throws.\<close>

definition extractFilenameFromSrc :: "jsstring \<Rightarrow> jsstring option" where
  "extractFilenameFromSrc src =
     (case decodeURIComponent src of
        Some decoded0 \<Rightarrow>
          (let decoded = (case indexOf QMARK decoded0 of
                            None \<Rightarrow> decoded0
                          | Some queryIndex \<Rightarrow> substring0 queryIndex decoded0);
               segments = split SLASH decoded
           in (case lastElement segments of
                 None \<Rightarrow> None
               | Some lastSegment \<Rightarrow>
                   if lastSegment \<noteq> [] \<and> rxTest rxExtension lastSegment
                   then Some lastSegment else None))
      | None \<Rightarrow>
          (case rxExec rxTrailingName src of
             None \<Rightarrow> None
           | Some m1 \<Rightarrow> if m1 \<noteq> [] then Some m1 else None))"

text \<open>The two \<open>for ... of\<close> loops of \<open>resolveImageFile\<close>, each returning at its first hit.\<close>

fun pathMatchLoop :: "jsstring \<Rightarrow> TFile list \<Rightarrow> TFile option" where
  "pathMatchLoop decodedPath [] = None"
| "pathMatchLoop decodedPath (file # files) =
     (if endsWith decodedPath (path file) \<or> path file = decodedPath then Some file
      else pathMatchLoop decodedPath files)"

fun nameMatchLoop :: "jsstring \<Rightarrow> TFile list \<Rightarrow> TFile option" where
  "nameMatchLoop filename [] = None"
| "nameMatchLoop filename (file # files) =
     (if name file = filename then Some file else nameMatchLoop filename files)"

text \<open>The path that \<open>resolveImageFile\<close> compares with the files' paths.\<close>

definition candidatePath :: "jsstring \<Rightarrow> jsstring" where
  "candidatePath src =
     (let decodedPath0 = (case decodeURIComponent src of None \<Rightarrow> src | Some d \<Rightarrow> d);
          decodedPath1 = (case rxExec rxAppUrl decodedPath0 of
                            None \<Rightarrow> decodedPath0
                          | Some m1 \<Rightarrow> if m1 \<noteq> [] then m1 else decodedPath0)
      in (case indexOf QMARK decodedPath1 of
            None \<Rightarrow> decodedPath1
          | Some queryIndex \<Rightarrow> substring0 queryIndex decodedPath1))"

definition resolveImageFile :: "TFile list \<Rightarrow> jsstring \<Rightarrow> TFile option" where
  "resolveImageFile allFiles src =
     (case pathMatchLoop (candidatePath src) allFiles of
        Some file \<Rightarrow> Some file
      | None \<Rightarrow>
          (case extractFilenameFromSrc src of
             None \<Rightarrow> None
           | Some filename \<Rightarrow>
               if filename \<noteq> [] then nameMatchLoop filename allFiles else None))"

definition generateEmbedCode :: "TFile list \<Rightarrow> jsstring \<Rightarrow> bool \<Rightarrow> jsstring option" where
  "generateEmbedCode allFiles src isExternal =
     (if isExternal then Some (js ''![]('' @ src @ js '')'')
      else (case resolveImageFile allFiles src of
              Some imageFile \<Rightarrow> Some (js ''![['' @ name imageFile @ js '']]'')
            | None \<Rightarrow>
                (case extractFilenameFromSrc src of
                   Some fallbackName \<Rightarrow>
                     if fallbackName \<noteq> [] then Some (js ''![['' @ fallbackName @ js '']]'')
                     else None
                 | None \<Rightarrow> None)))"

text \<open>The classification of line 62 of the source.\<close>

definition isExternalSrc :: "jsstring \<Rightarrow> bool" where
  "isExternalSrc src = (startsWith src (js ''http://'') \<or> startsWith src (js ''https://''))"

section \<open>The clicked element\<close>

text \<open>
  The right-click event's target, seen from below: an element with its tag name,
  the \<open>src\<close> attribute (\<open>getAttribute('src')\<close>, \<open>None\<close> for \<open>null\<close>), the
  live \<open>src\<close> property and its \<open>parentElement\<close>. The chain of parents is
  finite, as in a document tree.
\<close>

datatype element =
  Element (tagName: jsstring) (srcAttribute: "jsstring option") (srcProperty: jsstring)
    (parentElement: "element option")

text \<open>The \<open>while (target)\<close> loop of \<open>captureImageInfo\<close>.\<close>

fun findImg :: "element \<Rightarrow> element option" where
  "findImg (Element tag attr prop parent) =
     (if tag = js ''IMG'' then Some (Element tag attr prop parent)
      else (case parent of None \<Rightarrow> None | Some target \<Rightarrow> findImg target))"

section \<open>The document and the menus\<close>

text \<open>
  The closures the plugin installs, each with the variables it captured when it was
  created: the click handler of the structured menu item (line 78), the click
  handler of the injected item (lines 135-138, with the popup \<open>menuEl\<close>), and the
  two hover handlers (lines 140-141, with the item \<open>menuItem\<close>). An element of the
  document is referred to by its path from the root: the child indices on the way.
\<close>

datatype closure =
    CopyEmbed jsstring bool
  | CopyEmbedAndHide jsstring bool "nat list"
  | AddSelected "nat list"
  | RemoveSelected "nat list"

datatype dnode =
  DNode (tagOf: jsstring) (classes: "jsstring list") (attributes: "(jsstring \<times> jsstring) list")
    (textContent: jsstring) (listeners: "(jsstring \<times> closure) list") (childNodes: "dnode list")

fun nodeAt :: "nat list \<Rightarrow> dnode \<Rightarrow> dnode option" where
  "nodeAt [] n = Some n"
| "nodeAt (i # p) n =
     (if i < length (childNodes n) then nodeAt p (childNodes n ! i) else None)"

fun updateAt :: "nat list \<Rightarrow> (dnode \<Rightarrow> dnode) \<Rightarrow> dnode \<Rightarrow> dnode" where
  "updateAt [] f n = f n"
| "updateAt (i # p) f n =
     (if i < length (childNodes n)
      then DNode (tagOf n) (classes n) (attributes n) (textContent n) (listeners n)
             ((childNodes n)[i := updateAt p f (childNodes n ! i)])
      else n)"

text \<open>\<open>el.setAttribute(k, v)\<close>, \<open>el.appendChild(c)\<close>, \<open>el.classList.add(c)\<close> and \<open>el.classList.remove(c)\<close>.\<close>

fun setAttr :: "jsstring \<Rightarrow> jsstring \<Rightarrow> (jsstring \<times> jsstring) list \<Rightarrow> (jsstring \<times> jsstring) list" where
  "setAttr k v [] = [(k, v)]"
| "setAttr k v ((k', v') # kvs) =
     (if k' = k then (k, v) # kvs else (k', v') # setAttr k v kvs)"

definition setAttribute :: "jsstring \<Rightarrow> jsstring \<Rightarrow> dnode \<Rightarrow> dnode" where
  "setAttribute k v n =
     DNode (tagOf n) (classes n) (setAttr k v (attributes n)) (textContent n) (listeners n)
       (childNodes n)"

definition appendChild :: "dnode \<Rightarrow> dnode \<Rightarrow> dnode" where
  "appendChild child n =
     DNode (tagOf n) (classes n) (attributes n) (textContent n) (listeners n)
       (childNodes n @ [child])"



text \<open>
  \<open>document.querySelector(sel)\<close>: the first element in document order (the node
  before its children, the children from first to last) that matches, as its path.
\<close>

fun firstHit :: "nat \<Rightarrow> 'a option list \<Rightarrow> (nat \<times> 'a) option" where
  "firstHit i [] = None"
| "firstHit i (None # xs) = firstHit (Suc i) xs"
| "firstHit i (Some r # xs) = Some (i, r)"

fun querySelector :: "(dnode \<Rightarrow> bool) \<Rightarrow> dnode \<Rightarrow> nat list option" where
  "querySelector sel (DNode t c a x l kids) =
     (if sel (DNode t c a x l kids) then Some []
      else (case firstHit 0 (map (querySelector sel) kids) of
              None \<Rightarrow> None
            | Some (i, p) \<Rightarrow> Some (i # p)))"

text \<open>The selector \<^verbatim>\<open>.menu:not([data-copy-embed-injected])\<close>.\<close>

definition hasAttribute :: "jsstring \<Rightarrow> dnode \<Rightarrow> bool" where
  "hasAttribute k n = (k \<in> fst ` set (attributes n))"

definition menuNotInjected :: "dnode \<Rightarrow> bool" where
  "menuNotInjected n =
     (js ''menu'' \<in> set (classes n) \<and> \<not> hasAttribute (js ''data-copy-embed-injected'') n)"

text \<open>The fragment that \<open>injectIntoExistingMenu\<close> builds (lines 97-141).\<close>

definition svgIcon :: dnode where
  "svgIcon =
     DNode (js ''svg'') [js ''svg-icon'', js ''lucide-copy'']
       [(js ''width'', js ''24''), (js ''height'', js ''24''), (js ''viewBox'', js ''0 0 24 24''),
        (js ''fill'', js ''none''), (js ''stroke'', js ''currentColor''),
        (js ''stroke-width'', js ''2''), (js ''stroke-linecap'', js ''round''),
        (js ''stroke-linejoin'', js ''round'')]
       [] []
       [DNode (js ''rect'') []
          [(js ''x'', js ''9''), (js ''y'', js ''9''), (js ''width'', js ''13''),
           (js ''height'', js ''13''), (js ''rx'', js ''2''), (js ''ry'', js ''2'')] [] [] [],
        DNode (js ''path'') []
          [(js ''d'', js ''M5 15H4a2 2 0 0 1-2-2V4a2 2 0 0 1 2-2h9a2 2 0 0 1 2 2v1'')] [] [] []]"

definition menuItemNode :: "jsstring \<Rightarrow> bool \<Rightarrow> nat list \<Rightarrow> nat list \<Rightarrow> dnode" where
  "menuItemNode src isExternal menuEl menuItem =
     DNode (js ''div'') [js ''menu-item''] [] []
       [(js ''click'', CopyEmbedAndHide src isExternal menuEl),
        (js ''mouseenter'', AddSelected menuItem),
        (js ''mouseleave'', RemoveSelected menuItem)]
       [DNode (js ''div'') [js ''menu-item-icon''] [] [] [] [svgIcon],
        DNode (js ''div'') [js ''menu-item-title''] [] (js ''Copy embed code'') [] []]"


section \<open>The plugin\<close>

text \<open>
  The plugin's one field, \<open>lastClickedImage\<close>, and what its methods read and write
  around it: the vault's files, the document, the clipboard (with whether a write
  to it is granted: \<open>writeText\<close> rejects otherwise) and the notices shown so far.
\<close>

record world =
  lastClickedImage :: "(jsstring \<times> bool) option"
  vaultFiles :: "TFile list"
  document :: dnode
  clipboard :: jsstring
  clipboardGranted :: bool
  notices :: "jsstring list"

definition captureImageInfo :: "world \<Rightarrow> element option \<Rightarrow> world" where
  "captureImageInfo w target =
     (case (case target of None \<Rightarrow> None | Some t \<Rightarrow> findImg t) of
        None \<Rightarrow> w\<lparr>lastClickedImage := None\<rparr>
      | Some imgElement \<Rightarrow>
          (let src = (case srcAttribute imgElement of
                        None \<Rightarrow> srcProperty imgElement
                      | Some a \<Rightarrow> if a \<noteq> [] then a else srcProperty imgElement)
           in if src = [] then w\<lparr>lastClickedImage := None\<rparr>
              else w\<lparr>lastClickedImage := Some (src, isExternalSrc src)\<rparr>))"


definition injectIntoExistingMenu :: "world \<Rightarrow> world" where
  "injectIntoExistingMenu w =
     (case lastClickedImage w of
        None \<Rightarrow> w
      | Some (src, isExternal) \<Rightarrow>
          (case querySelector menuNotInjected (document w) of
             None \<Rightarrow> w
           | Some menuEl \<Rightarrow>
               (let d1 = updateAt menuEl
                           (setAttribute (js ''data-copy-embed-injected'') (js ''true''))
                           (document w);
                    menuItem = menuEl @ [case nodeAt menuEl d1 of
                                           None \<Rightarrow> 0
                                         | Some n \<Rightarrow> length (childNodes n)]
                in w\<lparr>document :=
                       updateAt menuEl
                         (appendChild (menuItemNode src isExternal menuEl menuItem)) d1\<rparr>)))"

definition copyEmbedCode :: "world \<Rightarrow> jsstring \<Rightarrow> bool \<Rightarrow> world" where
  "copyEmbedCode w src isExternal =
     (case generateEmbedCode (vaultFiles w) src isExternal of
        None \<Rightarrow> w\<lparr>notices := notices w @ [js ''Could not determine image path'']\<rparr>
      | Some embedCode \<Rightarrow>
          if embedCode = []
          then w\<lparr>notices := notices w @ [js ''Could not determine image path'']\<rparr>
          else if clipboardGranted w
          then w\<lparr>clipboard := embedCode, notices := notices w @ [js ''Copied: '' @ embedCode]\<rparr>
          else w)"





text \<open>
  Repeated right-clicks, as the injection sees them: before each run of
  \<open>injectIntoExistingMenu\<close> the slot holds whatever the last capture left.
\<close>

fun injectRepeatedly :: "(jsstring \<times> bool) option list \<Rightarrow> world \<Rightarrow> world" where
  "injectRepeatedly [] w = w"
| "injectRepeatedly (slot # slots) w =
     injectRepeatedly slots (injectIntoExistingMenu (w\<lparr>lastClickedImage := slot\<rparr>))"

section \<open>Descriptions the code is compared with\<close>

text \<open>
  The element under the pointer and its ancestors, nearest first; the nearest image
  among them; the source reference the plugin reads from an image (the attribute,
  or the live property when the attribute is missing or empty).
\<close>

fun ancestorsInclusive :: "element \<Rightarrow> element list" where
  "ancestorsInclusive (Element tag attr prop parent) =
     Element tag attr prop parent
       # (case parent of None \<Rightarrow> [] | Some e \<Rightarrow> ancestorsInclusive e)"

definition nearestImage :: "element option \<Rightarrow> element option" where
  "nearestImage target =
     (case target of
        None \<Rightarrow> None
      | Some t \<Rightarrow> find (\<lambda>e. tagName e = js ''IMG'') (ancestorsInclusive t))"

definition sourceEmpty :: "element \<Rightarrow> bool" where
  "sourceEmpty img =
     ((srcAttribute img = None \<or> srcAttribute img = Some []) \<and> srcProperty img = [])"

definition sourceReference :: "element \<Rightarrow> jsstring" where
  "sourceReference img =
     (if srcAttribute img = None \<or> srcAttribute img = Some [] then srcProperty img
      else the (srcAttribute img))"

text \<open>A popup is marked as augmented when it carries the attribute of the guard.\<close>

definition augmented :: "dnode \<Rightarrow> bool" where
  "augmented n = hasAttribute (js ''data-copy-embed-injected'') n"

text \<open>
  What one injection may do to the element at a path: a node update that keeps the
  children it finds in place; two nodes with the same classes, attributes and
  number of children; and a node that either kept its number of children or was
  an unmarked menu popup, is now marked, and has one child more.
\<close>

definition keepsChildren :: "(dnode \<Rightarrow> dnode) \<Rightarrow> bool" where
  "keepsChildren f = (\<forall>n. \<exists>extra. childNodes (f n) = childNodes n @ extra)"

definition sameShell :: "dnode \<Rightarrow> dnode \<Rightarrow> bool" where
  "sameShell m m' =
     (classes m' = classes m \<and> attributes m' = attributes m
      \<and> length (childNodes m') = length (childNodes m))"

definition grown :: "dnode \<Rightarrow> dnode \<Rightarrow> bool" where
  "grown m m' =
     (sameShell m m'
      \<or> (menuNotInjected m \<and> augmented m' \<and> classes m' = classes m
          \<and> length (childNodes m') = Suc (length (childNodes m))))"

text \<open>
  The pieces of a source string: the text before the first \<open>?\<close>; the text after
  the last \<open>/\<close>; a segment that ends in a dot and one or more word characters;
  such a segment with something before the dot.
\<close>

definition stripQuery :: "jsstring \<Rightarrow> jsstring" where
  "stripQuery s = takeWhile (\<lambda>c. c \<noteq> QMARK) s"

definition lastSegment :: "jsstring \<Rightarrow> jsstring" where
  "lastSegment s = rev (takeWhile (\<lambda>c. c \<noteq> SLASH) (rev s))"

definition hasExtension :: "jsstring \<Rightarrow> bool" where
  "hasExtension seg =
     (\<exists>stem ext. seg = stem @ DOT # ext \<and> ext \<noteq> [] \<and> list_all isWordChar ext)"

definition isNameWithExtension :: "jsstring \<Rightarrow> bool" where
  "isNameWithExtension tok =
     (\<exists>stem ext. tok = stem @ DOT # ext \<and> stem \<noteq> [] \<and> ext \<noteq> [] \<and> list_all isWordChar ext)"

text \<open>
  The trailing name-with-extension token of a string: the string is cut at every
  slash, backslash and question mark; the token is the first piece that has a
  name, a dot and an extension and that ends the string or is followed by \<open>?\<close>.
\<close>

function trailingNameToken :: "jsstring \<Rightarrow> jsstring option" where
  "trailingNameToken s =
     (if isNameWithExtension (takeWhile nameChar s)
         \<and> (dropWhile nameChar s = [] \<or> hd (dropWhile nameChar s) = QMARK)
      then Some (takeWhile nameChar s)
      else (case dropWhile nameChar s of
              [] \<Rightarrow> None
            | sep # s' \<Rightarrow> trailingNameToken s'))"
  by pat_completeness auto
termination
proof (relation "measure length")
  fix s :: jsstring and sep s'
  assume "dropWhile nameChar s = sep # s'"
  then have "length (sep # s') \<le> length s"
    by (metis length_dropWhile_le)
  then show "(s', s) \<in> measure length" by simp
qed simp

declare trailingNameToken.simps [simp del]

text \<open>
  \<open>extractFilenameFromSrc\<close> as the specification words it: decode, cut the query,
  take the last segment, accept it when it has an extension; when decoding throws,
  the trailing name-with-extension token of the string as given.
\<close>

definition extractFilename_spec :: "jsstring \<Rightarrow> jsstring option" where
  "extractFilename_spec src =
     (case decodeURIComponent src of
        Some decoded \<Rightarrow>
          (if hasExtension (lastSegment (stripQuery decoded))
           then Some (lastSegment (stripQuery decoded)) else None)
      | None \<Rightarrow> trailingNameToken src)"







section \<open>Strings\<close>

lemma startsWith_prefix: "startsWith s p = prefix p s"
  by (auto simp: startsWith_def prefix_def) (metis append_take_drop_id)


section \<open>File names from source strings\<close>

lemma indexOf_takeWhile:
  "(case indexOf c s of None \<Rightarrow> s | Some i \<Rightarrow> substring0 i s) = takeWhile (\<lambda>x. x \<noteq> c) s"
proof (induction s)
  case Nil
  then show ?case by simp
next
  case (Cons x xs)
  then show ?case
    by (cases "indexOf c xs") (auto simp: substring0_def min_def split: if_splits)
qed

lemma split_nonempty: "split sep s \<noteq> []"
  by (induction s) (auto split: list.splits)

lemma split_no_sep: "sep \<notin> set s \<Longrightarrow> split sep s = [s]"
  by (induction s) auto

lemma split_with_sep: "sep \<in> set s \<Longrightarrow> \<exists>a b segs. split sep s = a # b # segs"
proof (induction s)
  case Nil
  then show ?case by simp
next
  case (Cons c cs)
  show ?case
  proof (cases "c = sep")
    case True
    then show ?thesis using split_nonempty [of sep cs]
      by (cases "split sep cs") auto
  next
    case False
    with Cons.prems have "sep \<in> set cs" by simp
    from Cons.IH [OF this] False show ?thesis by auto
  qed
qed

lemma last_split: "last (split sep s) = rev (takeWhile (\<lambda>c. c \<noteq> sep) (rev s))"
proof (induction s)
  case Nil
  then show ?case by simp
next
  case (Cons c cs)
  show ?case
  proof (cases "sep \<in> set cs")
    case True
    from split_with_sep [OF this] obtain a b segs where "split sep cs = a # b # segs"
      by blast
    with Cons.IH True show ?thesis
      by (auto simp: takeWhile_append)
  next
    case False
    then have "split sep cs = [cs]" by (rule split_no_sep)
    with False show ?thesis
      by (auto simp: takeWhile_append)
  qed
qed

lemma lastElement_split: "lastElement (split SLASH s) = Some (lastSegment s)"
  using split_nonempty [of SLASH s]
  by (simp add: lastElement_def lastSegment_def last_split [symmetric] last_conv_nth)


subsection \<open>The extension pattern\<close>

lemma word_then_eos:
  "rxMatch [PlusG isWordChar, Eos] s g cap
     = (if s \<noteq> [] \<and> list_all isWordChar s then Some cap else None)"
proof (induction s)
  case Nil
  then show ?case by simp
next
  case (Cons x xs)
  then show ?case by (cases xs) auto
qed

lemma rxExtension_here:
  "rxMatch rxExtension s g cap
     = (case s of
          [] \<Rightarrow> None
        | x # xs \<Rightarrow> if x = DOT \<and> xs \<noteq> [] \<and> list_all isWordChar xs then Some cap else None)"
  by (cases s) (simp_all add: rxExtension_def word_then_eos del: rxMatch.simps(3))

lemma rxTest_rxExtension: "rxTest rxExtension s = hasExtension s"
proof (induction s)
  case Nil
  then show ?case
    by (simp add: rxTest_def hasExtension_def rxExtension_here)
next
  case (Cons x xs)
  have here: "(rxMatch rxExtension (x # xs) [] [] \<noteq> None)
                = (x = DOT \<and> xs \<noteq> [] \<and> list_all isWordChar xs)"
    by (simp add: rxExtension_here)
  have step: "hasExtension (x # xs)
                = ((x = DOT \<and> xs \<noteq> [] \<and> list_all isWordChar xs) \<or> hasExtension xs)"
  proof
    assume "hasExtension (x # xs)"
    then obtain stem ext where
      e: "x # xs = stem @ DOT # ext" "ext \<noteq> []" "list_all isWordChar ext"
      unfolding hasExtension_def by blast
    show "(x = DOT \<and> xs \<noteq> [] \<and> list_all isWordChar xs) \<or> hasExtension xs"
    proof (cases stem)
      case Nil
      with e show ?thesis by simp
    next
      case (Cons a as)
      with e have "xs = as @ DOT # ext" by simp
      with e show ?thesis unfolding hasExtension_def by blast
    qed
  next
    assume "(x = DOT \<and> xs \<noteq> [] \<and> list_all isWordChar xs) \<or> hasExtension xs"
    then show "hasExtension (x # xs)"
    proof
      assume "x = DOT \<and> xs \<noteq> [] \<and> list_all isWordChar xs"
      then have "x # xs = [] @ DOT # xs \<and> xs \<noteq> [] \<and> list_all isWordChar xs" by simp
      then show ?thesis unfolding hasExtension_def by blast
    next
      assume "hasExtension xs"
      then obtain stem ext where "xs = stem @ DOT # ext" "ext \<noteq> []" "list_all isWordChar ext"
        unfolding hasExtension_def by blast
      then have "x # xs = (x # stem) @ DOT # ext \<and> ext \<noteq> [] \<and> list_all isWordChar ext"
        by simp
      then show ?thesis unfolding hasExtension_def by blast
    qed
  qed
  from Cons here step show ?case
    by (auto simp: rxTest_def split: option.splits)
qed

lemma hasExtension_nonempty: "hasExtension s \<Longrightarrow> s \<noteq> []"
  by (auto simp: hasExtension_def)


subsection \<open>The trailing-name pattern\<close>

lemma not_word_QMARK [simp]: "\<not> isWordChar QMARK"
  by (simp add: isWordChar_def)

lemma not_word_DOT [simp]: "\<not> isWordChar DOT"
  by (simp add: isWordChar_def)

lemma not_name_QMARK [simp]: "\<not> nameChar QMARK"
  by (simp add: nameChar_def)

lemma name_DOT [simp]: "nameChar DOT"
  by (simp add: nameChar_def)

lemma word_is_name: "isWordChar c \<Longrightarrow> nameChar c"
  by (auto simp: isWordChar_def nameChar_def)

lemma dropWhile_all: "\<forall>x\<in>set xs. P x \<Longrightarrow> dropWhile P xs = []"
  by simp

lemma close_then_end:
  "rxMatch [GClose, QOrEnd] s g cap
     = (if s = [] \<or> hd s = QMARK then Some (take (length g - length s) g) else None)"
  by (cases s) auto

lemma word_then_close:
  "rxMatch [PlusG isWordChar, GClose, QOrEnd] s g cap
     = (if takeWhile isWordChar s \<noteq> []
           \<and> (dropWhile isWordChar s = [] \<or> hd (dropWhile isWordChar s) = QMARK)
        then Some (take (length g - length (dropWhile isWordChar s)) g) else None)"
proof (induction s)
  case Nil
  then show ?case by simp
next
  case (Cons x xs)
  show ?case
  proof (cases "isWordChar x")
    case False
    then show ?thesis by simp
  next
    case True
    have "rxMatch [PlusG isWordChar, GClose, QOrEnd] (x # xs) g cap
            = (case rxMatch [PlusG isWordChar, GClose, QOrEnd] xs g cap of
                 Some r \<Rightarrow> Some r
               | None \<Rightarrow> rxMatch [GClose, QOrEnd] xs g cap)"
      using True by simp
    also have "\<dots> = (if dropWhile isWordChar xs = [] \<or> hd (dropWhile isWordChar xs) = QMARK
                      then Some (take (length g - length (dropWhile isWordChar xs)) g)
                      else None)"
      unfolding Cons.IH close_then_end
      by (cases xs) (auto simp: dropWhile_all)
    finally show ?thesis using True by simp
  qed
qed

lemma dot_word_close:
  "rxMatch [Lit DOT, PlusG isWordChar, GClose, QOrEnd] s g cap
     = (case s of
          [] \<Rightarrow> None
        | x # xs \<Rightarrow>
            if x = DOT \<and> takeWhile isWordChar xs \<noteq> []
               \<and> (dropWhile isWordChar xs = [] \<or> hd (dropWhile isWordChar xs) = QMARK)
            then Some (take (length g - length (dropWhile isWordChar xs)) g) else None)"
  by (cases s) (simp_all add: word_then_close del: rxMatch.simps(3))


lemma isNameWithExtension_Cons: "isNameWithExtension tok \<Longrightarrow> isNameWithExtension (x # tok)"
proof -
  assume "isNameWithExtension tok"
  then obtain stem ext where
    "tok = stem @ DOT # ext" "stem \<noteq> []" "ext \<noteq> []" "list_all isWordChar ext"
    unfolding isNameWithExtension_def by blast
  then have "x # tok = (x # stem) @ DOT # ext \<and> x # stem \<noteq> [] \<and> ext \<noteq> []
               \<and> list_all isWordChar ext"
    by simp
  then show ?thesis unfolding isNameWithExtension_def by blast
qed

lemma isNameWithExtension_first:
  assumes "isNameWithExtension (x # tok)" and "\<not> isNameWithExtension tok"
  shows "\<exists>ext. tok = DOT # ext \<and> ext \<noteq> [] \<and> list_all isWordChar ext"
proof -
  from assms(1) obtain stem ext where
    e: "x # tok = stem @ DOT # ext" "stem \<noteq> []" "ext \<noteq> []" "list_all isWordChar ext"
    unfolding isNameWithExtension_def by blast
  then obtain a as where stem: "stem = a # as" by (cases stem) auto
  show ?thesis
  proof (cases as)
    case Nil
    with e stem show ?thesis by simp
  next
    case (Cons b bs)
    with e stem have "tok = as @ DOT # ext \<and> as \<noteq> [] \<and> ext \<noteq> [] \<and> list_all isWordChar ext"
      by simp
    then have "isNameWithExtension tok" unfolding isNameWithExtension_def by blast
    with assms(2) show ?thesis by simp
  qed
qed

lemma run_then_rest:
  assumes "\<forall>c\<in>set w. P c" and "r = [] \<or> \<not> P (hd r)"
  shows "takeWhile P (w @ r) = w \<and> dropWhile P (w @ r) = r"
proof (cases r)
  case Nil
  with assms show ?thesis by simp
next
  case (Cons a as)
  with assms show ?thesis
    by (simp add: takeWhile_append dropWhile_append)
qed

lemma word_run_is_name_run:
  assumes "dropWhile isWordChar ys = [] \<or> hd (dropWhile isWordChar ys) = QMARK"
  shows "takeWhile nameChar ys = takeWhile isWordChar ys
         \<and> dropWhile nameChar ys = dropWhile isWordChar ys"
proof -
  have a: "\<forall>c\<in>set (takeWhile isWordChar ys). nameChar c"
    by (auto dest: set_takeWhileD word_is_name)
  have b: "dropWhile isWordChar ys = [] \<or> \<not> nameChar (hd (dropWhile isWordChar ys))"
    using assms by auto
  from run_then_rest [OF a b] show ?thesis by simp
qed

lemma take_length_dropWhile: "take (length s - length (dropWhile P s)) s = takeWhile P s"
proof -
  have "length s = length (takeWhile P s) + length (dropWhile P s)"
    by (metis length_append takeWhile_dropWhile_id)
  then have "length s - length (dropWhile P s) = length (takeWhile P s)"
    by simp
  then show ?thesis
    using takeWhile_eq_take [of P s] by simp
qed

lemma name_then_dot:
  "rxMatch [PlusG nameChar, Lit DOT, PlusG isWordChar, GClose, QOrEnd] s g cap
     = (if isNameWithExtension (takeWhile nameChar s)
           \<and> (dropWhile nameChar s = [] \<or> hd (dropWhile nameChar s) = QMARK)
        then Some (take (length g - length (dropWhile nameChar s)) g) else None)"
proof (induction s)
  case Nil
  then show ?case by (simp add: isNameWithExtension_def)
next
  case (Cons x xs)
  let ?F = "\<lambda>s. rxMatch [PlusG nameChar, Lit DOT, PlusG isWordChar, GClose, QOrEnd] s g cap"
  let ?D = "\<lambda>s. rxMatch [Lit DOT, PlusG isWordChar, GClose, QOrEnd] s g cap"
  let ?run = "takeWhile nameChar xs" and ?rest = "dropWhile nameChar xs"
  let ?cap = "Some (take (length g - length ?rest) g)"
  show ?case
  proof (cases "nameChar x")
    case False
    then show ?thesis by (simp add: isNameWithExtension_def)
  next
    case True
    have step: "?F (x # xs) = (case ?F xs of Some r \<Rightarrow> Some r | None \<Rightarrow> ?D xs)"
      using True by simp
    show ?thesis
    proof (cases "isNameWithExtension ?run \<and> (?rest = [] \<or> hd ?rest = QMARK)")
      case c: True
      then have "?F xs = ?cap" using Cons.IH by simp
      with step c True show ?thesis by (simp add: isNameWithExtension_Cons)
    next
      case c: False
      then have "?F xs = None" using Cons.IH by simp
      with step have f: "?F (x # xs) = ?D xs" by simp
      show ?thesis
      proof (cases "?D xs")
        case (Some r)
        then obtain ys where xs: "xs = DOT # ys"
          and w: "takeWhile isWordChar ys \<noteq> []"
          and e: "dropWhile isWordChar ys = [] \<or> hd (dropWhile isWordChar ys) = QMARK"
          and r: "r = take (length g - length (dropWhile isWordChar ys)) g"
          unfolding dot_word_close by (auto split: list.splits if_splits)
        from word_run_is_name_run [OF e] have
          n: "takeWhile nameChar ys = takeWhile isWordChar ys"
             "dropWhile nameChar ys = dropWhile isWordChar ys"
          by simp_all
        have "x # ?run = [x] @ DOT # takeWhile isWordChar ys \<and> [x] \<noteq> []
              \<and> takeWhile isWordChar ys \<noteq> [] \<and> list_all isWordChar (takeWhile isWordChar ys)"
          using xs n w by (auto simp: list_all_iff dest: set_takeWhileD)
        then have "isNameWithExtension (x # ?run)"
          unfolding isNameWithExtension_def by blast
        with f Some r xs n e True show ?thesis by simp
      next
        case None
        have "\<not> (isNameWithExtension (x # ?run) \<and> (?rest = [] \<or> hd ?rest = QMARK))"
        proof
          assume a: "isNameWithExtension (x # ?run) \<and> (?rest = [] \<or> hd ?rest = QMARK)"
          with c have "\<not> isNameWithExtension ?run" by blast
          from isNameWithExtension_first [OF _ this] a obtain ext where
            ext: "?run = DOT # ext" "ext \<noteq> []" "list_all isWordChar ext"
            by blast
          have xs: "xs = DOT # ext @ ?rest"
            using ext(1) takeWhile_dropWhile_id [of nameChar xs] by simp
          have "\<forall>c\<in>set ext. isWordChar c" using ext(3) by (simp add: list_all_iff)
          moreover have "?rest = [] \<or> \<not> isWordChar (hd ?rest)" using a by auto
          ultimately have "takeWhile isWordChar (ext @ ?rest) = ext
                           \<and> dropWhile isWordChar (ext @ ?rest) = ?rest"
            by (rule run_then_rest)
          then have "?D (DOT # ext @ ?rest) \<noteq> None"
            using ext(2) a unfolding dot_word_close
            by (simp del: dropWhile_eq_Nil_conv)
          with xs None show False by simp
        qed
        with f None True show ?thesis by simp
      qed
    qed
  qed
qed

lemma rxTrailingName_here:
  "rxMatch rxTrailingName s g cap
     = (if isNameWithExtension (takeWhile nameChar s)
           \<and> (dropWhile nameChar s = [] \<or> hd (dropWhile nameChar s) = QMARK)
        then Some (takeWhile nameChar s) else None)"
  by (simp add: rxTrailingName_def name_then_dot take_length_dropWhile
      del: rxMatch.simps(2,3))


lemma isNameWithExtension_nonempty: "isNameWithExtension tok \<Longrightarrow> tok \<noteq> []"
  by (auto simp: isNameWithExtension_def)

lemma rxExec_here: "rxMatch items s [] [] = Some r \<Longrightarrow> rxExec items s = Some r"
  by (cases s) simp_all

lemma rxExec_next: "rxMatch items (x # xs) [] [] = None \<Longrightarrow> rxExec items (x # xs) = rxExec items xs"
  by simp

lemma rxTrailingName_skip:
  "\<not> (isNameWithExtension (takeWhile nameChar s)
       \<and> (dropWhile nameChar s = [] \<or> hd (dropWhile nameChar s) = QMARK)) \<Longrightarrow>
   rxExec rxTrailingName s
     = (case dropWhile nameChar s of [] \<Rightarrow> None | sep # s' \<Rightarrow> rxExec rxTrailingName s')"
proof (induction s)
  case Nil
  then show ?case by (simp add: rxTrailingName_here isNameWithExtension_def)
next
  case (Cons x xs)
  from Cons.prems have "rxMatch rxTrailingName (x # xs) [] [] = None"
    unfolding rxTrailingName_here by simp
  then have e: "rxExec rxTrailingName (x # xs) = rxExec rxTrailingName xs"
    by (rule rxExec_next)
  show ?case
  proof (cases "nameChar x")
    case True
    with Cons.prems have "\<not> (isNameWithExtension (takeWhile nameChar xs)
       \<and> (dropWhile nameChar xs = [] \<or> hd (dropWhile nameChar xs) = QMARK))"
      by (auto dest: isNameWithExtension_Cons simp del: dropWhile_eq_Nil_conv)
    from Cons.IH [OF this] e True show ?thesis by simp
  next
    case False
    with e show ?thesis by simp
  qed
qed

lemma trailingNameToken_found:
  "isNameWithExtension (takeWhile nameChar s)
     \<and> (dropWhile nameChar s = [] \<or> hd (dropWhile nameChar s) = QMARK) \<Longrightarrow>
   trailingNameToken s = Some (takeWhile nameChar s)"
  by (rule trans [OF trailingNameToken.simps if_P])

lemma trailingNameToken_skip:
  "\<not> (isNameWithExtension (takeWhile nameChar s)
       \<and> (dropWhile nameChar s = [] \<or> hd (dropWhile nameChar s) = QMARK)) \<Longrightarrow>
   trailingNameToken s
     = (case dropWhile nameChar s of [] \<Rightarrow> None | sep # s' \<Rightarrow> trailingNameToken s')"
  by (rule trans [OF trailingNameToken.simps if_not_P])

lemma rxExec_rxTrailingName: "rxExec rxTrailingName s = trailingNameToken s"
proof (induction s rule: trailingNameToken.induct)
  case (1 s)
  show ?case
  proof (cases "isNameWithExtension (takeWhile nameChar s)
       \<and> (dropWhile nameChar s = [] \<or> hd (dropWhile nameChar s) = QMARK)")
    case True
    then have "rxMatch rxTrailingName s [] [] = Some (takeWhile nameChar s)"
      unfolding rxTrailingName_here by simp
    then have "rxExec rxTrailingName s = Some (takeWhile nameChar s)"
      by (rule rxExec_here)
    with trailingNameToken_found [OF True] show ?thesis by simp
  next
    case False
    show ?thesis
    proof (cases "dropWhile nameChar s")
      case Nil
      with rxTrailingName_skip [OF False] trailingNameToken_skip [OF False]
      show ?thesis by (simp del: dropWhile_eq_Nil_conv)
    next
      case (Cons sep s')
      from "1.IH" [OF False Cons] Cons
        rxTrailingName_skip [OF False] trailingNameToken_skip [OF False]
      show ?thesis by (simp del: dropWhile_eq_Nil_conv)
    qed
  qed
qed

lemma trailingNameToken_nonempty: "trailingNameToken s = Some tok \<Longrightarrow> tok \<noteq> []"
proof (induction s rule: trailingNameToken.induct)
  case (1 s)
  show ?case
  proof (cases "isNameWithExtension (takeWhile nameChar s)
       \<and> (dropWhile nameChar s = [] \<or> hd (dropWhile nameChar s) = QMARK)")
    case True
    with "1.prems" trailingNameToken_found [OF True] have "tok = takeWhile nameChar s"
      by simp
    with True show ?thesis by (auto dest: isNameWithExtension_nonempty)
  next
    case False
    show ?thesis
    proof (cases "dropWhile nameChar s")
      case Nil
      with "1.prems" trailingNameToken_skip [OF False] show ?thesis
        by (simp del: dropWhile_eq_Nil_conv)
    next
      case (Cons sep s')
      with "1.prems" trailingNameToken_skip [OF False] have "trailingNameToken s' = Some tok"
        by (simp del: dropWhile_eq_Nil_conv)
      from "1.IH" [OF False Cons this] show ?thesis .
    qed
  qed
qed

text \<open>
  Claim C4. \<open>extractFilenameFromSrc\<close> decodes the source, cuts it at the first
  \<open>?\<close>, splits it at \<open>/\<close> and takes the last segment, which it returns exactly
  when the segment ends in a dot and one or more word characters; when decoding
  throws, it returns what the one regular expression finds in the source as given:
  the trailing name-with-extension token; otherwise nothing.
\<close>

theorem extractFilenameFromSrc_spec:
  "extractFilenameFromSrc src = extractFilename_spec src"
proof (cases "decodeURIComponent src")
  case None
  then show ?thesis
    by (auto simp: extractFilenameFromSrc_def extractFilename_spec_def rxExec_rxTrailingName
        split: option.splits dest: trailingNameToken_nonempty)
next
  case (Some decoded)
  then show ?thesis
    using hasExtension_nonempty [of "lastSegment (stripQuery decoded)"]
    by (auto simp: extractFilenameFromSrc_def extractFilename_spec_def indexOf_takeWhile
        stripQuery_def [symmetric] lastElement_split rxTest_rxExtension Let_def)
qed

theorem extractFilenameFromSrc_spec_witness:
  "extractFilenameFromSrc (js ''Notes/diagram%20final.png'') = Some (js ''diagram final.png'')
   \<and> extractFilename_spec (js ''Notes/diagram%20final.png'') = Some (js ''diagram final.png'')
   \<and> extractFilenameFromSrc (js ''Notes/%zzdiagram.png?x=1'') = Some (js ''%zzdiagram.png'')
   \<and> extractFilename_spec (js ''Notes/%zzdiagram.png?x=1'') = Some (js ''%zzdiagram.png'')
   \<and> extractFilename_spec (js ''data:image/png;base64,...'') = None"
proof -
  have a: "extractFilenameFromSrc (js ''Notes/diagram%20final.png'')
             = Some (js ''diagram final.png'')"
    by code_simp
  have b: "extractFilenameFromSrc (js ''Notes/%zzdiagram.png?x=1'')
             = Some (js ''%zzdiagram.png'')"
    by code_simp
  have c: "extractFilenameFromSrc (js ''data:image/png;base64,...'') = None"
    by code_simp
  from a b c
    extractFilenameFromSrc_spec [of "js ''Notes/diagram%20final.png''"]
    extractFilenameFromSrc_spec [of "js ''Notes/%zzdiagram.png?x=1''"]
    extractFilenameFromSrc_spec [of "js ''data:image/png;base64,...''"]
  show ?thesis by simp
qed

section \<open>Resolution against the vault\<close>

subsection \<open>The application-URL pattern\<close>

















section \<open>The classification and the external format\<close>

text \<open>
  Claim C6. The classifier of line 62 is true exactly for the strings that begin
  with \<open>http://\<close> or \<open>https://\<close>; a string that begins with \<open>app://\<close> is
  classified as local.
\<close>

theorem isExternalSrc_classifies:
  "isExternalSrc src = (prefix (js ''http://'') src \<or> prefix (js ''https://'') src)
   \<and> \<not> isExternalSrc (js ''app://'' @ rest)"
  by (simp add: isExternalSrc_def startsWith_prefix) (simp add: js_def)

theorem isExternalSrc_classifies_witness:
  "isExternalSrc (js ''https://example.com/cat.png'')
   \<and> \<not> isExternalSrc (js ''app://abc123/Attachments/photo.png?1700000000'')
   \<and> \<not> isExternalSrc (js ''Notes/diagram%20final.png'')"
  using isExternalSrc_classifies
      [of "js ''https://example.com/cat.png''" "js ''abc123/Attachments/photo.png?1700000000''"]
    isExternalSrc_classifies [of "js ''Notes/diagram%20final.png''" "[]"]
  by (simp add: js_def)

text \<open>
  Claim C1. A source that begins with \<open>http://\<close> or \<open>https://\<close> is classified
  external, and for it \<open>generateEmbedCode\<close> returns \<open>![](\<close>, the source as it is,
  and \<open>)\<close>, whatever the vault holds.
\<close>

theorem generateEmbedCode_external:
  "prefix (js ''http://'') src \<or> prefix (js ''https://'') src \<Longrightarrow>
   isExternalSrc src \<and>
   generateEmbedCode allFiles src (isExternalSrc src) = Some (js ''![]('' @ src @ js '')'')"
  by (simp add: isExternalSrc_def startsWith_prefix generateEmbedCode_def)

theorem generateEmbedCode_external_witness:
  "prefix (js ''https://'') (js ''https://example.com/cat.png'')
   \<and> generateEmbedCode [] (js ''https://example.com/cat.png'')
     (isExternalSrc (js ''https://example.com/cat.png''))
   = Some (js ''![](https://example.com/cat.png)'')"
proof -
  have h: "prefix (js ''https://'') (js ''https://example.com/cat.png'')"
    by (simp add: js_def)
  from generateEmbedCode_external [of "js ''https://example.com/cat.png''" "[]"] h
  show ?thesis by (auto simp: js_def)
qed

text \<open>
  Claim C9. With the flag true \<open>generateEmbedCode\<close> returns a non-empty string, so
  \<open>copyEmbedCode\<close> never takes its failure branch (the failure notice, nothing
  copied) for an external source: where that branch is taken, the flag is false.
\<close>

theorem external_never_fails:
  "generateEmbedCode allFiles src True \<noteq> None
   \<and> generateEmbedCode allFiles src True \<noteq> Some []
   \<and> copyEmbedCode w src True
       \<noteq> w\<lparr>notices := notices w @ [js ''Could not determine image path'']\<rparr>
   \<and> (copyEmbedCode w src isExternal
         = w\<lparr>notices := notices w @ [js ''Could not determine image path'']\<rparr>
        \<longrightarrow> \<not> isExternal)"
proof -
  have g: "generateEmbedCode fs src True = Some (js ''![]('' @ src @ js '')'')" for fs
    by (simp add: generateEmbedCode_def)
  have ne: "js ''Copied: '' @ x \<noteq> js ''Could not determine image path''" for x
    by (simp add: js_def)
  have c: "copyEmbedCode w src True
             \<noteq> w\<lparr>notices := notices w @ [js ''Could not determine image path'']\<rparr>"
  proof
    assume "copyEmbedCode w src True
              = w\<lparr>notices := notices w @ [js ''Could not determine image path'']\<rparr>"
    then have "notices (copyEmbedCode w src True)
                 = notices w @ [js ''Could not determine image path'']"
      by simp
    then show False
      using ne by (simp add: copyEmbedCode_def g js_def split: if_splits)
  qed
  have n: "js ''![]('' @ src @ js '')'' \<noteq> []"
    by (simp add: js_def)
  show ?thesis using c n by (cases isExternal) (simp_all add: g)
qed

theorem external_never_fails_witness:
  "generateEmbedCode [] (js ''https://example.com/cat.png'') True
     = Some (js ''![](https://example.com/cat.png)'')
   \<and> notices (copyEmbedCode
        \<lparr>lastClickedImage = None, vaultFiles = [], document = DNode [] [] [] [] [] [],
         clipboard = [], clipboardGranted = True, notices = []\<rparr>
        (js ''https://example.com/cat.png'') True)
     = [js ''Copied: ![](https://example.com/cat.png)'']"
proof -
  have "generateEmbedCode [] (js ''https://example.com/cat.png'') True \<noteq> None"
    using external_never_fails [of "[]" "js ''https://example.com/cat.png''"] by blast
  then show ?thesis
    by (simp add: generateEmbedCode_def copyEmbedCode_def js_def)
qed

section \<open>The local format and the failure\<close>

text \<open>
  Claim C2. When \<open>resolveImageFile\<close> yields a file for a local source, the embed
  code is \<open>![[\<close>, the file's \<open>name\<close>, \<open>]]\<close>; it is the code of the file's \<open>path\<close>
  only where path and name are the same string.
\<close>

theorem generateEmbedCode_resolved:
  "resolveImageFile allFiles src = Some file \<Longrightarrow>
   generateEmbedCode allFiles src False = Some (js ''![['' @ name file @ js '']]'')
   \<and> (generateEmbedCode allFiles src False = Some (js ''![['' @ path file @ js '']]'')
        \<longrightarrow> path file = name file)"
  by (simp add: generateEmbedCode_def)

theorem generateEmbedCode_resolved_witness:
  "resolveImageFile [\<lparr>path = js ''Attachments/photo.png'', name = js ''photo.png''\<rparr>]
     (js ''app://abc123/Attachments/photo.png?1700000000'')
     = Some \<lparr>path = js ''Attachments/photo.png'', name = js ''photo.png''\<rparr>
   \<and> generateEmbedCode [\<lparr>path = js ''Attachments/photo.png'', name = js ''photo.png''\<rparr>]
     (js ''app://abc123/Attachments/photo.png?1700000000'') False
     = Some (js ''![[photo.png]]'')
   \<and> generateEmbedCode [\<lparr>path = js ''Attachments/photo.png'', name = js ''photo.png''\<rparr>]
     (js ''app://abc123/Attachments/photo.png?1700000000'') False
     \<noteq> Some (js ''![[Attachments/photo.png]]'')"
proof -
  have r: "resolveImageFile [\<lparr>path = js ''Attachments/photo.png'', name = js ''photo.png''\<rparr>]
     (js ''app://abc123/Attachments/photo.png?1700000000'')
     = Some \<lparr>path = js ''Attachments/photo.png'', name = js ''photo.png''\<rparr>"
    by code_simp
  from generateEmbedCode_resolved [OF r] r show ?thesis
    by (auto simp: js_def)
qed

text \<open>
  Claim C5. When both \<open>resolveImageFile\<close> and \<open>extractFilenameFromSrc\<close> yield
  nothing for a local source, \<open>generateEmbedCode\<close> returns nothing and
  \<open>copyEmbedCode\<close> only adds the notice \<open>Could not determine image path\<close>: the
  clipboard and everything else stay as they were.
\<close>

theorem no_embed_code_failure:
  "resolveImageFile (vaultFiles w) src = None \<Longrightarrow> extractFilenameFromSrc src = None \<Longrightarrow>
   generateEmbedCode (vaultFiles w) src False = None
   \<and> copyEmbedCode w src False
       = w\<lparr>notices := notices w @ [js ''Could not determine image path'']\<rparr>
   \<and> clipboard (copyEmbedCode w src False) = clipboard w"
  by (simp add: generateEmbedCode_def copyEmbedCode_def)

theorem no_embed_code_failure_witness:
  "resolveImageFile [] (js ''data:image/png;base64,...'') = None
   \<and> extractFilenameFromSrc (js ''data:image/png;base64,...'') = None
   \<and> copyEmbedCode
        \<lparr>lastClickedImage = None, vaultFiles = [], document = DNode [] [] [] [] [] [],
         clipboard = js ''old'', clipboardGranted = True, notices = []\<rparr>
        (js ''data:image/png;base64,...'') False
     = \<lparr>lastClickedImage = None, vaultFiles = [], document = DNode [] [] [] [] [] [],
         clipboard = js ''old'', clipboardGranted = True,
         notices = [js ''Could not determine image path'']\<rparr>"
proof -
  have e: "extractFilenameFromSrc (js ''data:image/png;base64,...'') = None"
    by code_simp
  have r: "resolveImageFile [] (js ''data:image/png;base64,...'') = None"
    by (simp add: resolveImageFile_def e)
  from no_embed_code_failure [of "\<lparr>lastClickedImage = None, vaultFiles = [],
      document = DNode [] [] [] [] [] [], clipboard = js ''old'', clipboardGranted = True,
      notices = []\<rparr>" "js ''data:image/png;base64,...''"] e r
  show ?thesis by simp
qed

text \<open>
  When no file of the vault matches a local source but a file name can be extracted
  from it, the embed code is \<open>![[\<close>, the extracted name, \<open>]]\<close>.
\<close>

theorem generateEmbedCode_fallback:
  "resolveImageFile allFiles src = None \<Longrightarrow> extractFilenameFromSrc src = Some fallbackName \<Longrightarrow>
   generateEmbedCode allFiles src False = Some (js ''![['' @ fallbackName @ js '']]'')"
  by (auto simp: generateEmbedCode_def extractFilenameFromSrc_def Let_def
      split: option.splits if_splits)

theorem generateEmbedCode_fallback_witness:
  "resolveImageFile [] (js ''Notes/diagram%20final.png'') = None
   \<and> extractFilenameFromSrc (js ''Notes/diagram%20final.png'') = Some (js ''diagram final.png'')
   \<and> generateEmbedCode [] (js ''Notes/diagram%20final.png'') False
       = Some (js ''![[diagram final.png]]'')"
proof -
  have e: "extractFilenameFromSrc (js ''Notes/diagram%20final.png'')
             = Some (js ''diagram final.png'')"
    by code_simp
  have r: "resolveImageFile [] (js ''Notes/diagram%20final.png'') = None"
    by code_simp
  from generateEmbedCode_fallback [OF r e] r e show ?thesis
    by (simp add: js_def)
qed
section \<open>The click target\<close>

lemma findImg_find: "findImg t = find (\<lambda>e. tagName e = js ''IMG'') (ancestorsInclusive t)"
  by (induction t rule: findImg.induct) (auto split: option.splits)

text \<open>
  Claim C7. \<open>captureImageInfo\<close> looks for the nearest image among the click
  target and its ancestors. When there is none, or the image's source is empty both
  as attribute and as live property, the slot becomes empty; otherwise the slot
  becomes that image's source reference with its classification. No other part of
  the state changes.
\<close>

theorem captureImageInfo_slot:
  "captureImageInfo w target =
     w\<lparr>lastClickedImage :=
         (case nearestImage target of
            None \<Rightarrow> None
          | Some img \<Rightarrow>
              if sourceEmpty img then None
              else Some (sourceReference img, isExternalSrc (sourceReference img)))\<rparr>"
  by (auto simp: captureImageInfo_def nearestImage_def findImg_find sourceEmpty_def
      sourceReference_def Let_def split: option.splits)

theorem captureImageInfo_slot_witness:
  "lastClickedImage (captureImageInfo
      \<lparr>lastClickedImage = None, vaultFiles = [], document = DNode [] [] [] [] [] [],
       clipboard = [], clipboardGranted = True, notices = []\<rparr>
      (Some (Element (js ''SPAN'') None []
        (Some (Element (js ''IMG'') (Some []) (js ''https://example.com/cat.png'')
          (Some (Element (js ''DIV'') None [] None)))))))
    = Some (js ''https://example.com/cat.png'', True)
   \<and> lastClickedImage (captureImageInfo
      \<lparr>lastClickedImage = Some (js ''x.png'', False), vaultFiles = [],
       document = DNode [] [] [] [] [] [],
       clipboard = [], clipboardGranted = True, notices = []\<rparr>
      (Some (Element (js ''SPAN'') None [] (Some (Element (js ''DIV'') None [] None)))))
    = None"
  by (simp add: captureImageInfo_slot nearestImage_def sourceEmpty_def sourceReference_def
      isExternalSrc_def startsWith_def js_def)

section \<open>Injection into the menu popup\<close>

subsection \<open>Paths\<close>


lemma childNodes_updateAt_length:
  "length (childNodes (updateAt (i # q) f t)) = length (childNodes t)"
  by simp

lemma nodeAt_updateAt:
  "keepsChildren f \<Longrightarrow> nodeAt p t = Some m \<Longrightarrow>
   \<exists>m'. nodeAt p (updateAt q f t) = Some m' \<and> (if p = q then m' = f m else sameShell m m')"
proof (induction q arbitrary: p t m)
  case Nil
  show ?case
  proof (cases p)
    case Nil
    with Nil.prems show ?thesis by simp
  next
    case (Cons i r)
    from Nil.prems(1) obtain extra where e: "childNodes (f t) = childNodes t @ extra"
      unfolding keepsChildren_def by blast
    from Cons Nil.prems(2) have "i < length (childNodes t)" "nodeAt r (childNodes t ! i) = Some m"
      by (auto split: if_splits)
    then have "nodeAt p (f t) = Some m"
      using Cons e by (simp add: nth_append)
    then show ?thesis using Cons by (simp add: sameShell_def)
  qed
next
  case (Cons j q')
  show ?case
  proof (cases p)
    case Nil
    with Cons.prems show ?thesis by (simp add: sameShell_def)
  next
    case c: (Cons i r)
    from c Cons.prems(2) have i: "i < length (childNodes t)"
      and r: "nodeAt r (childNodes t ! i) = Some m"
      by (auto split: if_splits)
    show ?thesis
    proof (cases "i = j")
      case True
      from Cons.IH [OF Cons.prems(1) r, of ] obtain m' where
        "nodeAt r (updateAt q' f (childNodes t ! i)) = Some m'"
        "if r = q' then m' = f m else sameShell m m'"
        by blast
      then show ?thesis using c i True by simp
    next
      case False
      then show ?thesis using c i r by (auto simp: sameShell_def)
    qed
  qed
qed

lemma firstHit_Some:
  "firstHit i xs = Some (j, r) \<Longrightarrow> i \<le> j \<and> j - i < length xs \<and> xs ! (j - i) = Some r"
proof (induction i xs rule: firstHit.induct)
  case (2 i xs)
  then have h: "Suc i \<le> j" "j - Suc i < length xs" "xs ! (j - Suc i) = Some r" by auto
  then have "j - i = Suc (j - Suc i)" by arith
  with h show ?case by simp
qed auto

lemma querySelector_sound:
  "querySelector sel t = Some p \<Longrightarrow> \<exists>n. nodeAt p t = Some n \<and> sel n"
proof (induction sel t arbitrary: p rule: querySelector.induct)
  case (1 sel t c a x l kids)
  show ?case
  proof (cases "sel (DNode t c a x l kids)")
    case True
    with 1 show ?thesis by simp
  next
    case False
    with "1.prems" obtain i r where
      h: "firstHit 0 (map (querySelector sel) kids) = Some (i, r)" and p: "p = i # r"
      by (auto split: option.splits)
    from firstHit_Some [OF h] have i: "i < length kids" and q: "querySelector sel (kids ! i) = Some r"
      by auto
    from "1.IH" [OF False _ q] i obtain n where "nodeAt r (kids ! i) = Some n" "sel n"
      by auto
    then show ?thesis using p i by simp
  qed
qed


subsection \<open>One injection\<close>

lemma grown_refl: "grown m m"
  by (simp add: grown_def sameShell_def)

lemma grown_trans: "grown a b \<Longrightarrow> grown b c \<Longrightarrow> grown a c"
  by (auto simp: grown_def sameShell_def menuNotInjected_def augmented_def hasAttribute_def)

lemma sameShell_grown: "sameShell m m' \<Longrightarrow> grown m m'"
  by (simp add: grown_def)

lemma keepsChildren_setAttribute: "keepsChildren (setAttribute k v)"
  by (simp add: keepsChildren_def setAttribute_def)

lemma keepsChildren_appendChild: "keepsChildren (appendChild c)"
  by (simp add: keepsChildren_def appendChild_def)

lemma setAttr_mem: "(k, v) \<in> set (setAttr k v kvs)"
  by (induction kvs) auto

lemma setAttr_has: "k \<in> fst ` set (setAttr k v kvs)"
  using setAttr_mem [of k v kvs] by (metis fst_conv image_eqI)

lemma mark_append_grown:
  "menuNotInjected m \<Longrightarrow>
   grown m (appendChild c (setAttribute (js ''data-copy-embed-injected'') (js ''true'') m))"
  by (simp add: grown_def appendChild_def setAttribute_def augmented_def hasAttribute_def
      setAttr_has)

lemma sameShell_trans: "sameShell a b \<Longrightarrow> sameShell b c \<Longrightarrow> sameShell a c"
  by (simp add: sameShell_def)

lemma inject_step:
  assumes "nodeAt p (document w) = Some m"
  shows "\<exists>m'. nodeAt p (document (injectIntoExistingMenu w)) = Some m' \<and> grown m m'"
proof (cases "lastClickedImage w")
  case None
  with assms show ?thesis by (simp add: injectIntoExistingMenu_def grown_refl)
next
  case (Some slot)
  obtain src isExternal where slot: "slot = (src, isExternal)" by (cases slot)
  show ?thesis
  proof (cases "querySelector menuNotInjected (document w)")
    case None
    with assms Some show ?thesis
      by (simp add: injectIntoExistingMenu_def grown_refl split: prod.splits)
  next
    case q: (Some menuEl)
    define d1 where "d1 = updateAt menuEl
      (setAttribute (js ''data-copy-embed-injected'') (js ''true'')) (document w)"
    define item where "item = menuItemNode src isExternal menuEl
      (menuEl @ [case nodeAt menuEl d1 of None \<Rightarrow> 0 | Some n \<Rightarrow> length (childNodes n)])"
    have doc: "document (injectIntoExistingMenu w) = updateAt menuEl (appendChild item) d1"
      using Some slot q by (simp add: injectIntoExistingMenu_def d1_def item_def Let_def)
    from nodeAt_updateAt [OF keepsChildren_setAttribute assms, of menuEl]
    obtain m1 where m1: "nodeAt p d1 = Some m1"
      and m1': "if p = menuEl
                then m1 = setAttribute (js ''data-copy-embed-injected'') (js ''true'') m
                else sameShell m m1"
      unfolding d1_def by blast
    from nodeAt_updateAt [OF keepsChildren_appendChild m1, of menuEl item]
    obtain m2 where m2: "nodeAt p (updateAt menuEl (appendChild item) d1) = Some m2"
      and m2': "if p = menuEl then m2 = appendChild item m1 else sameShell m1 m2"
      by blast
    have "grown m m2"
    proof (cases "p = menuEl")
      case True
      from querySelector_sound [OF q] assms True have "menuNotInjected m" by auto
      with True m1' m2' show ?thesis by (simp add: mark_append_grown)
    next
      case False
      with m1' m2' show ?thesis by (auto intro: sameShell_grown sameShell_trans)
    qed
    with m2 doc show ?thesis by simp
  qed
qed

lemma injectRepeatedly_grown:
  "nodeAt p (document w) = Some m \<Longrightarrow>
   \<exists>m'. nodeAt p (document (injectRepeatedly slots w)) = Some m' \<and> grown m m'"
proof (induction slots arbitrary: w m)
  case Nil
  then show ?case by (simp add: grown_refl)
next
  case (Cons slot slots)
  from Cons.prems have "nodeAt p (document (w\<lparr>lastClickedImage := slot\<rparr>)) = Some m"
    by simp
  from inject_step [OF this] obtain m1 where
    m1: "nodeAt p (document (injectIntoExistingMenu (w\<lparr>lastClickedImage := slot\<rparr>))) = Some m1"
    and g1: "grown m m1" by blast
  from Cons.IH [OF m1] obtain m' where
    "nodeAt p (document (injectRepeatedly slots
        (injectIntoExistingMenu (w\<lparr>lastClickedImage := slot\<rparr>)))) = Some m'"
    "grown m1 m'" by blast
  with g1 show ?case by (auto intro: grown_trans)
qed

text \<open>
  Claim C8. Over any number of runs of \<open>injectIntoExistingMenu\<close>, with any slot
  before each, every element of the document gets at most one child appended: a
  child is appended only to an element that matched the selector (an unmarked menu
  popup), which is marked from then on, and an element that is already marked
  keeps its classes, its attributes and its number of children, so a second
  injection into a popup adds nothing to the first.
\<close>

theorem inject_at_most_once:
  "nodeAt p (document w) = Some m \<Longrightarrow>
   \<exists>m'. nodeAt p (document (injectRepeatedly slots w)) = Some m'
     \<and> (length (childNodes m') = length (childNodes m)
        \<or> length (childNodes m') = Suc (length (childNodes m)))
     \<and> (length (childNodes m') = Suc (length (childNodes m))
          \<longrightarrow> menuNotInjected m \<and> augmented m')
     \<and> (augmented m \<longrightarrow> sameShell m m')"
proof -
  assume "nodeAt p (document w) = Some m"
  from injectRepeatedly_grown [OF this, of slots] obtain m' where
    "nodeAt p (document (injectRepeatedly slots w)) = Some m'" "grown m m'" by blast
  then show ?thesis
    by (auto simp: grown_def sameShell_def menuNotInjected_def augmented_def)
qed

theorem inject_at_most_once_witness:
  "nodeAt [0]
     (document \<lparr>lastClickedImage = None, vaultFiles = [],
        document = DNode (js ''body'') [] [] [] []
          [DNode (js ''div'') [js ''menu''] [] [] [] []],
        clipboard = [], clipboardGranted = True, notices = []\<rparr>)
     = Some (DNode (js ''div'') [js ''menu''] [] [] [] [])
   \<and> map_option (\<lambda>n. (length (childNodes n), augmented n))
       (nodeAt [0]
         (document (injectRepeatedly [Some (js ''a.png'', False), Some (js ''b.png'', False)]
           \<lparr>lastClickedImage = None, vaultFiles = [],
            document = DNode (js ''body'') [] [] [] []
              [DNode (js ''div'') [js ''menu''] [] [] [] []],
            clipboard = [], clipboardGranted = True, notices = []\<rparr>)))
     = Some (1, True)"
proof -
  let ?w = "\<lparr>lastClickedImage = None, vaultFiles = [],
        document = DNode (js ''body'') [] [] [] []
          [DNode (js ''div'') [js ''menu''] [] [] [] []],
        clipboard = [], clipboardGranted = True, notices = []\<rparr>"
  have a: "nodeAt [0] (document ?w) = Some (DNode (js ''div'') [js ''menu''] [] [] [] [])"
    by simp
  from inject_at_most_once [OF a, of "[Some (js ''a.png'', False), Some (js ''b.png'', False)]"] a
  show ?thesis
    by (simp add: injectIntoExistingMenu_def Let_def setAttribute_def appendChild_def
        menuNotInjected_def hasAttribute_def augmented_def menuItemNode_def svgIcon_def js_def)
qed

subsection \<open>Closures\<close>






end
